theory Spec2Isabelle
  imports Main
begin

section \<open>The CSS selector builder of 05-objects-tasks.js\<close>

text \<open>
  The builder keeps, for every selector object, a string \<open>str\<close> and a reference \<open>arr\<close> to
  a JavaScript array of the selector parts used so far.  The constructors receive the
  caller's array and push onto it, so several selector objects can point at one array.  The
  model therefore has an explicit heap: a list of objects and a list of arrays, both
  addressed by position.  A \<open>throw\<close> is the left injection of the result, returned together
  with the heap as it is at the moment of the throw.
\<close>

subsection \<open>Data\<close>

text \<open>The six strings that the constructors push onto \<open>arr\<close>.\<close>

datatype kind = Element | Id | Class | Attribute | PseudoClass | PseudoElement

fun kind_name :: "kind \<Rightarrow> string" where
  "kind_name Element = ''element''"
| "kind_name Id = ''id''"
| "kind_name Class = ''class''"
| "kind_name Attribute = ''attribute''"
| "kind_name PseudoClass = ''pseudo-class''"
| "kind_name PseudoElement = ''pseudo-element''"

text \<open>The table \<open>order\<close> of \<open>inOrderCheck\<close>.\<close>

fun order_of :: "kind \<Rightarrow> nat" where
  "order_of Element = 0"
| "order_of Id = 1"
| "order_of Class = 2"
| "order_of Attribute = 3"
| "order_of PseudoClass = 4"
| "order_of PseudoElement = 5"

text \<open>\<open>new Error(message)\<close>, and the two messages of the source.\<close>

datatype error = Error string

definition dup_msg :: string where
  "dup_msg = ''Element, id and pseudo-element should not occur more then one time inside the selector''"

definition order_msg :: string where
  "order_msg = ''Selector parts should be arranged in the following order: element, id, class, attribute, pseudo-class, pseudo-element''"

text \<open>
  A selector object: both properties may be missing (\<open>cssSelectorBuilder\<close> itself has
  neither, an object made by \<open>CombineSelector\<close> has no \<open>arr\<close>).
\<close>

record selector =
  str :: "string option"
  arr :: "nat option"

record heap =
  objs :: "selector list"
  arrs :: "kind list list"

type_synonym 'a result = "(error + 'a) \<times> heap"

subsection \<open>Heap primitives\<close>

text \<open>\<open>new F(...)\<close> starts from a fresh empty object; \<open>[]\<close> is a fresh empty array.\<close>

definition alloc_obj :: "heap \<Rightarrow> nat \<times> heap" where
  "alloc_obj h = (length (objs h), h\<lparr>objs := objs h @ [\<lparr>str = None, arr = None\<rparr>]\<rparr>)"

definition alloc_arr :: "heap \<Rightarrow> nat \<times> heap" where
  "alloc_arr h = (length (arrs h), h\<lparr>arrs := arrs h @ [[]]\<rparr>)"

definition set_arr :: "nat \<Rightarrow> nat \<Rightarrow> heap \<Rightarrow> heap" where
  "set_arr this r h = h\<lparr>objs := (objs h)[this := (objs h ! this)\<lparr>arr := Some r\<rparr>]\<rparr>"

definition set_str :: "nat \<Rightarrow> string \<Rightarrow> heap \<Rightarrow> heap" where
  "set_str this s h = h\<lparr>objs := (objs h)[this := (objs h ! this)\<lparr>str := Some s\<rparr>]\<rparr>"

definition push :: "nat \<Rightarrow> kind \<Rightarrow> heap \<Rightarrow> heap" where
  "push r k h = h\<lparr>arrs := (arrs h)[r := arrs h ! r @ [k]]\<rparr>"

text \<open>\<open>arr || []\<close>: an array reference is always truthy, a missing one gives a new array.\<close>

definition arr_or_new :: "nat option \<Rightarrow> heap \<Rightarrow> nat \<times> heap" where
  "arr_or_new a h = (case a of Some r \<Rightarrow> (r, h) | None \<Rightarrow> alloc_arr h)"

subsection \<open>The constructors\<close>

definition MyElement :: "string \<Rightarrow> string \<Rightarrow> nat option \<Rightarrow> heap \<Rightarrow> nat result" where
  "MyElement v s a h =
    (let (this, h1) = alloc_obj h;
         (r, h2) = arr_or_new a h1;
         h3 = set_arr this r h2
     in case List.find (\<lambda>item. item = Element) (arrs h3 ! r) of
          Some _ \<Rightarrow> (Inl (Error dup_msg), h3)
        | None \<Rightarrow>
            (let h4 = push r Element h3;
                 h5 = set_str this (s @ v) h4
             in (Inr this, h5)))"

definition MyId :: "string \<Rightarrow> string \<Rightarrow> nat option \<Rightarrow> heap \<Rightarrow> nat result" where
  "MyId v s a h =
    (let (this, h1) = alloc_obj h;
         (r, h2) = arr_or_new a h1;
         h3 = set_arr this r h2
     in case List.find (\<lambda>item. item = Id) (arrs h3 ! r) of
          Some _ \<Rightarrow> (Inl (Error dup_msg), h3)
        | None \<Rightarrow>
            (let h4 = push r Id h3;
                 h5 = set_str this (s @ ''#'' @ v) h4
             in (Inr this, h5)))"

definition MyClass :: "string \<Rightarrow> string \<Rightarrow> nat option \<Rightarrow> heap \<Rightarrow> nat result" where
  "MyClass v s a h =
    (let (this, h1) = alloc_obj h;
         (r, h2) = arr_or_new a h1;
         h3 = set_arr this r h2;
         h4 = push r Class h3;
         h5 = set_str this (s @ ''.'' @ v) h4
     in (Inr this, h5))"

definition MyAttr :: "string \<Rightarrow> string \<Rightarrow> nat option \<Rightarrow> heap \<Rightarrow> nat result" where
  "MyAttr v s a h =
    (let (this, h1) = alloc_obj h;
         (r, h2) = arr_or_new a h1;
         h3 = set_arr this r h2;
         h4 = push r Attribute h3;
         h5 = set_str this (s @ ''['' @ v @ '']'') h4
     in (Inr this, h5))"

definition MyPseudoClass :: "string \<Rightarrow> string \<Rightarrow> nat option \<Rightarrow> heap \<Rightarrow> nat result" where
  "MyPseudoClass v s a h =
    (let (this, h1) = alloc_obj h;
         (r, h2) = arr_or_new a h1;
         h3 = set_arr this r h2;
         h4 = push r PseudoClass h3;
         h5 = set_str this (s @ '':'' @ v) h4
     in (Inr this, h5))"

definition MyPseudoElement :: "string \<Rightarrow> string \<Rightarrow> nat option \<Rightarrow> heap \<Rightarrow> nat result" where
  "MyPseudoElement v s a h =
    (let (this, h1) = alloc_obj h;
         (r, h2) = arr_or_new a h1;
         h3 = set_arr this r h2
     in case List.find (\<lambda>item. item = PseudoElement) (arrs h3 ! r) of
          Some _ \<Rightarrow> (Inl (Error dup_msg), h3)
        | None \<Rightarrow>
            (let h4 = push r PseudoElement h3;
                 h5 = set_str this (s @ ''::'' @ v) h4
             in (Inr this, h5)))"

subsection \<open>The methods of \<open>cssSelectorBuilder\<close>\<close>

text \<open>\<open>this.str || ''\<close>.\<close>

definition stringify :: "heap \<Rightarrow> nat \<Rightarrow> string" where
  "stringify h this = (case str (objs h ! this) of Some s \<Rightarrow> s | None \<Rightarrow> [])"

definition CombineSelector :: "nat \<Rightarrow> string \<Rightarrow> nat \<Rightarrow> heap \<Rightarrow> nat \<times> heap" where
  "CombineSelector selector1 combinator selector2 h =
    (let (this, h1) = alloc_obj h
     in (this, set_str this
           (stringify h1 selector1 @ '' '' @ combinator @ '' '' @ stringify h1 selector2) h1))"

text \<open>\<open>Array.from(new Set(a))\<close>: a set keeps the first insertion of every value.\<close>

definition Array_from_Set :: "'a list \<Rightarrow> 'a list" where
  "Array_from_Set a = foldl (\<lambda>s x. if x \<in> set s then s else s @ [x]) [] a"

text \<open>The \<open>forEach\<close> of \<open>inOrderCheck\<close>, with \<open>prevOrder\<close> as an argument.\<close>

fun forEach_order :: "nat \<Rightarrow> kind list \<Rightarrow> error option" where
  "forEach_order prevOrder [] = None"
| "forEach_order prevOrder (item # rest) =
     (if order_of item < prevOrder then Some (Error order_msg)
      else forEach_order (order_of item) rest)"

definition inOrderCheck :: "heap \<Rightarrow> nat \<Rightarrow> error option" where
  "inOrderCheck h obj =
    (case arr (objs h ! obj) of
       None \<Rightarrow> None
     | Some r \<Rightarrow> forEach_order 0 (Array_from_Set (arrs h ! r)))"

text \<open>
  Every factory method builds the object, then checks it; \<open>Object.setPrototypeOf\<close> only
  gives the new object the methods below and is not part of the state.
\<close>

definition checked :: "nat result \<Rightarrow> nat result" where
  "checked r =
    (case r of
       (Inl e, h) \<Rightarrow> (Inl e, h)
     | (Inr obj, h) \<Rightarrow>
         (case inOrderCheck h obj of Some e \<Rightarrow> (Inl e, h) | None \<Rightarrow> (Inr obj, h)))"

definition element :: "nat \<Rightarrow> string \<Rightarrow> heap \<Rightarrow> nat result" where
  "element this v h = checked (MyElement v (stringify h this) (arr (objs h ! this)) h)"

definition id_sel :: "nat \<Rightarrow> string \<Rightarrow> heap \<Rightarrow> nat result" where
  "id_sel this v h = checked (MyId v (stringify h this) (arr (objs h ! this)) h)"

definition class_sel :: "nat \<Rightarrow> string \<Rightarrow> heap \<Rightarrow> nat result" where
  "class_sel this v h = checked (MyClass v (stringify h this) (arr (objs h ! this)) h)"

definition attr :: "nat \<Rightarrow> string \<Rightarrow> heap \<Rightarrow> nat result" where
  "attr this v h = checked (MyAttr v (stringify h this) (arr (objs h ! this)) h)"

definition pseudoClass :: "nat \<Rightarrow> string \<Rightarrow> heap \<Rightarrow> nat result" where
  "pseudoClass this v h = checked (MyPseudoClass v (stringify h this) (arr (objs h ! this)) h)"

definition pseudoElement :: "nat \<Rightarrow> string \<Rightarrow> heap \<Rightarrow> nat result" where
  "pseudoElement this v h =
     checked (MyPseudoElement v (stringify h this) (arr (objs h ! this)) h)"

definition combine :: "nat \<Rightarrow> string \<Rightarrow> nat \<Rightarrow> heap \<Rightarrow> nat \<times> heap" where
  "combine selector1 combinator selector2 h = CombineSelector selector1 combinator selector2 h"

text \<open>
  The module's initial heap holds the object \<open>cssSelectorBuilder\<close> alone, which has
  neither \<open>str\<close> nor \<open>arr\<close>.
\<close>

definition cssSelectorBuilder :: nat where
  "cssSelectorBuilder = 0"

definition init_heap :: heap where
  "init_heap = \<lparr>objs = [\<lparr>str = None, arr = None\<rparr>], arrs = []\<rparr>"

subsection \<open>Observations and the six factory calls as one operation\<close>

text \<open>
  What the spec calls \<open>usedKinds\<close> of a fragment is the content of the array that its
  \<open>arr\<close> points at; an object without \<open>arr\<close> is read as \<open>[]\<close>, as \<open>arr || []\<close> does.
\<close>

definition usedKinds :: "heap \<Rightarrow> nat \<Rightarrow> kind list" where
  "usedKinds h f = (case arr (objs h ! f) of None \<Rightarrow> [] | Some r \<Rightarrow> arrs h ! r)"

text \<open>A reference to a selector object of the heap, whose \<open>arr\<close> (if any) is an array of the heap.\<close>

definition valid :: "heap \<Rightarrow> nat \<Rightarrow> bool" where
  "valid h f \<longleftrightarrow>
     f < length (objs h) \<and>
     (case arr (objs h ! f) of None \<Rightarrow> True | Some r \<Rightarrow> r < length (arrs h))"

text \<open>A call of one of the six factory methods with its argument.\<close>

datatype op =
  OpElement string | OpId string | OpClass string | OpAttr string
  | OpPseudoClass string | OpPseudoElement string

fun call :: "op \<Rightarrow> nat \<Rightarrow> heap \<Rightarrow> nat result" where
  "call (OpElement v) this h = element this v h"
| "call (OpId v) this h = id_sel this v h"
| "call (OpClass v) this h = class_sel this v h"
| "call (OpAttr v) this h = attr this v h"
| "call (OpPseudoClass v) this h = pseudoClass this v h"
| "call (OpPseudoElement v) this h = pseudoElement this v h"

fun op_kind :: "op \<Rightarrow> kind" where
  "op_kind (OpElement v) = Element"
| "op_kind (OpId v) = Id"
| "op_kind (OpClass v) = Class"
| "op_kind (OpAttr v) = Attribute"
| "op_kind (OpPseudoClass v) = PseudoClass"
| "op_kind (OpPseudoElement v) = PseudoElement"

text \<open>The text each call adds, by the template literal of its constructor.\<close>

fun op_text :: "op \<Rightarrow> string" where
  "op_text (OpElement v) = v"
| "op_text (OpId v) = ''#'' @ v"
| "op_text (OpClass v) = ''.'' @ v"
| "op_text (OpAttr v) = ''['' @ v @ '']''"
| "op_text (OpPseudoClass v) = '':'' @ v"
| "op_text (OpPseudoElement v) = ''::'' @ v"

text \<open>The kinds whose constructor looks for an earlier occurrence.\<close>

fun singleton :: "kind \<Rightarrow> bool" where
  "singleton Element = True"
| "singleton Id = True"
| "singleton PseudoElement = True"
| "singleton Class = False"
| "singleton Attribute = False"
| "singleton PseudoClass = False"

text \<open>A chain \<open>f.m1(v1).m2(v2)...\<close>: the first throw ends it.\<close>

fun chain :: "op list \<Rightarrow> nat \<Rightarrow> heap \<Rightarrow> nat result" where
  "chain [] this h = (Inr this, h)"
| "chain (c # cs) this h =
     (case call c this h of
        (Inl e, h') \<Rightarrow> (Inl e, h')
      | (Inr obj, h') \<Rightarrow> chain cs obj h')"

subsection \<open>The invariants of the spec\<close>

text \<open>Deduplication that keeps the first occurrence of every value.\<close>

fun dedup_first :: "'a list \<Rightarrow> 'a list" where
  "dedup_first [] = []"
| "dedup_first (x # xs) = x # dedup_first (filter (\<lambda>y. y \<noteq> x) xs)"

text \<open>Invariant A: element, id and pseudo-element occur at most once.\<close>

definition invA :: "kind list \<Rightarrow> bool" where
  "invA ks \<longleftrightarrow>
     count_list ks Element \<le> 1 \<and> count_list ks Id \<le> 1 \<and> count_list ks PseudoElement \<le> 1"

text \<open>Invariant B: the first occurrences are in non-decreasing canonical order.\<close>

definition invB :: "kind list \<Rightarrow> bool" where
  "invB ks \<longleftrightarrow> sorted (map order_of (dedup_first ks))"

text \<open>
  The heap a factory call leaves behind.  The new object always sits at the end of \<open>objs\<close>
  and points at the caller's array when the caller has one, else at a new array.
\<close>

definition target_arr :: "heap \<Rightarrow> nat \<Rightarrow> nat" where
  "target_arr h f = (case arr (objs h ! f) of Some r \<Rightarrow> r | None \<Rightarrow> length (arrs h))"

definition arrs_ready :: "heap \<Rightarrow> nat \<Rightarrow> kind list list" where
  "arrs_ready h f = (case arr (objs h ! f) of Some r \<Rightarrow> arrs h | None \<Rightarrow> arrs h @ [[]])"

definition heap_thrown :: "heap \<Rightarrow> nat \<Rightarrow> heap" where
  "heap_thrown h f =
     \<lparr>objs = objs h @ [\<lparr>str = None, arr = Some (target_arr h f)\<rparr>], arrs = arrs_ready h f\<rparr>"

definition heap_built :: "heap \<Rightarrow> nat \<Rightarrow> kind \<Rightarrow> string \<Rightarrow> heap" where
  "heap_built h f k txt =
     \<lparr>objs = objs h @ [\<lparr>str = Some (stringify h f @ txt), arr = Some (target_arr h f)\<rparr>],
      arrs = (arrs_ready h f)[target_arr h f := usedKinds h f @ [k]]\<rparr>"

subsection \<open>Concrete heaps used in the examples\<close>

text \<open>After \<open>f = cssSelectorBuilder.element('div')\<close>: \<open>f\<close> is object 1.\<close>

definition heap_div :: heap where
  "heap_div = snd (chain [OpElement ''div''] cssSelectorBuilder init_heap)"

text \<open>After \<open>f = cssSelectorBuilder.class('a')\<close>: \<open>f\<close> is object 1.\<close>

definition heap_a :: heap where
  "heap_a = snd (chain [OpClass ''a''] cssSelectorBuilder init_heap)"

text \<open>After \<open>f = cssSelectorBuilder.element('div').class('a')\<close>: \<open>f\<close> is object 2.\<close>

definition heap_div_a :: heap where
  "heap_div_a = snd (chain [OpElement ''div'', OpClass ''a''] cssSelectorBuilder init_heap)"

text \<open>
  After \<open>l = cssSelectorBuilder.element('table').id('data')\<close> and
  \<open>r = cssSelectorBuilder.element('tr').pseudoClass('nth-of-type(even)')\<close>:
  \<open>l\<close> is object 2 and \<open>r\<close> is object 4.
\<close>

definition heap_table :: heap where
  "heap_table = snd (chain [OpElement ''table'', OpId ''data''] cssSelectorBuilder init_heap)"

definition heap_table_tr :: heap where
  "heap_table_tr =
     snd (chain [OpElement ''tr'', OpPseudoClass ''nth-of-type(even)''] cssSelectorBuilder
            heap_table)"

text \<open>After \<open>f = cssSelectorBuilder.class('a').attr('x')\<close>: \<open>f\<close> is object 2.\<close>

definition heap_a_x :: heap where
  "heap_a_x = snd (chain [OpClass ''a'', OpAttr ''x''] cssSelectorBuilder init_heap)"

section \<open>Auxiliary facts\<close>

subsection \<open>What a factory call does to the heap\<close>

lemma find_eq_case:
  "(case List.find (\<lambda>item. item = k) xs of Some _ \<Rightarrow> A | None \<Rightarrow> B) =
     (if k \<in> set xs then A else B)"
  by (auto split: option.splits simp: find_None_iff find_Some_iff)

lemma call_effect:
  assumes "valid h f"
  shows "call c f h =
    (if singleton (op_kind c) \<and> op_kind c \<in> set (usedKinds h f)
     then (Inl (Error dup_msg), heap_thrown h f)
     else (case forEach_order 0 (Array_from_Set (usedKinds h f @ [op_kind c])) of
             Some e \<Rightarrow> (Inl e, heap_built h f (op_kind c) (op_text c))
           | None \<Rightarrow> (Inr (length (objs h)), heap_built h f (op_kind c) (op_text c))))"
  using assms
  apply (cases c; cases "arr (objs h ! f)")
  apply (simp_all add: valid_def element_def id_sel_def class_sel_def attr_def
      pseudoClass_def pseudoElement_def MyElement_def MyId_def MyClass_def MyAttr_def
      MyPseudoClass_def MyPseudoElement_def checked_def alloc_obj_def alloc_arr_def
      arr_or_new_def set_arr_def set_str_def push_def find_eq_case heap_thrown_def
      heap_built_def target_arr_def arrs_ready_def usedKinds_def stringify_def
      inOrderCheck_def Let_def nth_append split: option.splits)
  done

lemma call_cases:
  assumes "valid h f"
  obtains
    (dup) "singleton (op_kind c)" "op_kind c \<in> set (usedKinds h f)"
      "call c f h = (Inl (Error dup_msg), heap_thrown h f)"
  | (order) e where "\<not> (singleton (op_kind c) \<and> op_kind c \<in> set (usedKinds h f))"
      "forEach_order 0 (Array_from_Set (usedKinds h f @ [op_kind c])) = Some e"
      "call c f h = (Inl e, heap_built h f (op_kind c) (op_text c))"
  | (ok) "\<not> (singleton (op_kind c) \<and> op_kind c \<in> set (usedKinds h f))"
      "forEach_order 0 (Array_from_Set (usedKinds h f @ [op_kind c])) = None"
      "call c f h = (Inr (length (objs h)), heap_built h f (op_kind c) (op_text c))"
  using call_effect [OF assms, of c]
  by (cases "singleton (op_kind c) \<and> op_kind c \<in> set (usedKinds h f)";
      cases "forEach_order 0 (Array_from_Set (usedKinds h f @ [op_kind c]))") auto

lemma target_arr_bound: "valid h f \<Longrightarrow> target_arr h f < length (arrs_ready h f)"
  by (auto simp: valid_def target_arr_def arrs_ready_def split: option.splits)

lemma thrown_old_obj: "g < length (objs h) \<Longrightarrow> objs (heap_thrown h f) ! g = objs h ! g"
  by (simp add: heap_thrown_def nth_append)

lemma built_old_obj: "g < length (objs h) \<Longrightarrow> objs (heap_built h f k t) ! g = objs h ! g"
  by (simp add: heap_built_def nth_append)

lemma thrown_new_obj:
  "objs (heap_thrown h f) ! length (objs h) = \<lparr>str = None, arr = Some (target_arr h f)\<rparr>"
  by (simp add: heap_thrown_def)

lemma built_new_obj:
  "objs (heap_built h f k t) ! length (objs h) =
     \<lparr>str = Some (stringify h f @ t), arr = Some (target_arr h f)\<rparr>"
  by (simp add: heap_built_def)

lemma thrown_usedKinds:
  "valid h g \<Longrightarrow> usedKinds (heap_thrown h f) g = usedKinds h g"
  by (auto simp: usedKinds_def valid_def heap_thrown_def arrs_ready_def nth_append
      split: option.splits)

lemma built_usedKinds_new:
  "valid h f \<Longrightarrow> usedKinds (heap_built h f k t) (length (objs h)) = usedKinds h f @ [k]"
  using target_arr_bound [of h f] by (simp add: usedKinds_def [of _ "length (objs h)"] heap_built_def)

lemma built_usedKinds_self:
  "valid h f \<Longrightarrow>
   usedKinds (heap_built h f k t) f =
     (case arr (objs h ! f) of None \<Rightarrow> [] | Some r \<Rightarrow> usedKinds h f @ [k])"
  by (auto simp: usedKinds_def valid_def heap_built_def arrs_ready_def target_arr_def
      nth_append split: option.splits)

lemma stringify_old:
  "g < length (objs h) \<Longrightarrow> objs h' ! g = objs h ! g \<Longrightarrow> stringify h' g = stringify h g"
  by (simp add: stringify_def)

lemma call_old_obj:
  assumes "valid h f" "g < length (objs h)"
  shows "objs (snd (call c f h)) ! g = objs h ! g"
  using assms(1)
  by (cases rule: call_cases [where c = c]) (simp_all add: thrown_old_obj built_old_obj assms(2))

lemma valid_built_new: "valid h f \<Longrightarrow> valid (heap_built h f k t) (length (objs h))"
  using target_arr_bound [of h f] by (simp add: valid_def heap_built_def)

lemma call_valid:
  assumes "valid h f" "call c f h = (Inr g, h')"
  shows "valid h' g"
  using assms(1)
  by (cases rule: call_cases [where c = c]) (use assms in \<open>auto simp: valid_built_new\<close>)

subsection \<open>The set-based deduplication and the order loop\<close>

lemma set_foldl_insert:
  "set (foldl (\<lambda>s x. if x \<in> set s then s else s @ [x]) acc xs) = set acc \<union> set xs"
  by (induction xs arbitrary: acc) auto

lemma set_Array_from_Set: "set (Array_from_Set xs) = set xs"
  by (simp add: Array_from_Set_def set_foldl_insert)

lemma Array_from_Set_snoc:
  "Array_from_Set (xs @ [x]) =
     (if x \<in> set xs then Array_from_Set xs else Array_from_Set xs @ [x])"
  using set_Array_from_Set [of xs] by (simp add: Array_from_Set_def)

lemma set_dedup_first: "set (dedup_first xs) = set xs"
  by (induction xs rule: dedup_first.induct) auto

lemma dedup_first_snoc:
  "dedup_first (xs @ [y]) = (if y \<in> set xs then dedup_first xs else dedup_first xs @ [y])"
  by (induction xs rule: dedup_first.induct) auto

lemma Array_from_Set_dedup_first: "Array_from_Set xs = dedup_first xs"
  by (induction xs rule: rev_induct)
     (simp_all add: Array_from_Set_snoc dedup_first_snoc, simp add: Array_from_Set_def)

lemma forEach_order_None:
  "forEach_order p xs = None \<longleftrightarrow>
     sorted (map order_of xs) \<and> (\<forall>x\<in>set xs. p \<le> order_of x)"
  by (induction xs arbitrary: p) (auto simp: not_less)

lemma forEach_order_Some: "forEach_order p xs = Some e \<Longrightarrow> e = Error order_msg"
  by (induction xs arbitrary: p) (auto split: if_splits)

lemma inOrder_iff: "forEach_order 0 (Array_from_Set ks) = None \<longleftrightarrow> invB ks"
  by (simp add: forEach_order_None Array_from_Set_dedup_first invB_def)

lemma msgs_differ: "dup_msg \<noteq> order_msg"
  by (simp add: dup_msg_def order_msg_def)

lemma invA_snoc:
  assumes "invA ks" "singleton k \<longrightarrow> k \<notin> set ks"
  shows "invA (ks @ [k])"
  using assms by (cases k) (auto simp: invA_def count_list_0_iff)

lemma usedKinds_arr: "k \<in> set (usedKinds h f) \<Longrightarrow> \<exists>r. arr (objs h ! f) = Some r"
  by (cases "arr (objs h ! f)") (simp_all add: usedKinds_def)

lemma thrown_when_present:
  assumes "k \<in> set (usedKinds h f)"
  shows "heap_thrown h f = \<lparr>objs = objs h @ [\<lparr>str = None, arr = arr (objs h ! f)\<rparr>], arrs = arrs h\<rparr>"
  using usedKinds_arr [OF assms]
  by (auto simp: heap_thrown_def target_arr_def arrs_ready_def)

lemma dup_msg_names:
  assumes "singleton k"
  shows "\<exists>pre post. dup_msg = pre @ kind_name k @ post"
proof (cases k)
  case Element
  have "dup_msg = ''Element, id and pseudo-'' @ kind_name Element @
      '' should not occur more then one time inside the selector''"
    by (simp add: dup_msg_def)
  then show ?thesis unfolding Element by blast
next
  case Id
  have "dup_msg = ''Element, '' @ kind_name Id @
      '' and pseudo-element should not occur more then one time inside the selector''"
    by (simp add: dup_msg_def)
  then show ?thesis unfolding Id by blast
next
  case PseudoElement
  have "dup_msg = ''Element, id and '' @ kind_name PseudoElement @
      '' should not occur more then one time inside the selector''"
    by (simp add: dup_msg_def)
  then show ?thesis unfolding PseudoElement by blast
qed (use assms in simp_all)

lemma invB_snoc_new:
  assumes "k \<notin> set ks" "invB ks"
  shows "invB (ks @ [k]) \<longleftrightarrow> (\<forall>j\<in>set ks. order_of j \<le> order_of k)"
  using assms set_dedup_first [of ks]
  by (auto simp: invB_def dedup_first_snoc sorted_append)

lemma first_call_in_order: "forEach_order 0 (Array_from_Set ([] @ [k])) = None"
  by (simp add: Array_from_Set_def)

text \<open>
  When the order error is thrown.  The constructor's duplicate check comes first; past it,
  \<open>inOrderCheck\<close> sees the array with the new kind at its end, deduplicated to first
  occurrences.  A kind that is already in the array therefore never moves the check: only
  a kind that is new to the array can be found out of order.
\<close>

lemma invB_snoc_old:
  assumes "k \<in> set ks"
  shows "invB (ks @ [k]) \<longleftrightarrow> invB ks"
  using assms by (simp add: invB_def dedup_first_snoc)

lemma order_error_iff:
  assumes "valid h f" and "invB (usedKinds h f)"
    and "\<not> (singleton (op_kind c) \<and> op_kind c \<in> set (usedKinds h f))"
  shows "fst (call c f h) = Inl (Error order_msg) \<longleftrightarrow>
           op_kind c \<notin> set (usedKinds h f) \<and>
           (\<exists>j\<in>set (usedKinds h f). order_of (op_kind c) < order_of j)"
proof -
  have B: "invB (usedKinds h f @ [op_kind c]) \<longleftrightarrow>
      \<not> (op_kind c \<notin> set (usedKinds h f) \<and>
         (\<exists>j\<in>set (usedKinds h f). order_of (op_kind c) < order_of j))"
  proof (cases "op_kind c \<in> set (usedKinds h f)")
    case True
    then show ?thesis using assms(2) by (simp add: invB_snoc_old)
  next
    case False
    then show ?thesis using invB_snoc_new [OF False assms(2)] by (auto simp: not_less)
  qed
  show ?thesis
    using assms(1)
  proof (cases rule: call_cases [where c = c])
    case dup
    with assms(3) show ?thesis by simp
  next
    case (order e)
    have "\<not> invB (usedKinds h f @ [op_kind c])"
      using order(2) inOrder_iff [of "usedKinds h f @ [op_kind c]"] by simp
    then show ?thesis
      using order(3) forEach_order_Some [OF order(2)] B by simp
  next
    case ok
    have "invB (usedKinds h f @ [op_kind c])"
      using ok(2) by (simp add: inOrder_iff)
    then show ?thesis using ok(3) B by simp
  qed
qed

lemma duplicate_checked_before_order:
  "valid heap_div_a 2 \<and> Class \<in> set (usedKinds heap_div_a 2)
   \<and> order_of Element < order_of Class
   \<and> fst (call (OpElement ''span'') 2 heap_div_a) = Inl (Error dup_msg)"
  by code_simp

lemma valid_built_old: "valid h f \<Longrightarrow> valid h g \<Longrightarrow> valid (heap_built h f k t) g"
  by (auto simp: valid_def heap_built_def arrs_ready_def nth_append split: option.splits)

lemma valid_thrown_old: "valid h g \<Longrightarrow> valid (heap_thrown h f) g"
  by (auto simp: valid_def heap_thrown_def arrs_ready_def nth_append split: option.splits)

lemma call_valid_old:
  assumes "valid h f" "valid h g"
  shows "valid (snd (call c f h)) g"
  using assms(1)
  by (cases rule: call_cases [where c = c]) (simp_all add: valid_built_old valid_thrown_old assms)

lemma call_text:
  assumes "valid h f" "call c f h = (Inr g, h')"
  shows "stringify h' g = stringify h f @ op_text c"
  using assms(1)
  by (cases rule: call_cases [where c = c])
     (use assms(2) in \<open>auto simp: stringify_def [of "heap_built _ _ _ _"] built_new_obj\<close>)

lemma call_stringify_old:
  assumes "valid h f" "g < length (objs h)"
  shows "stringify (snd (call c f h)) g = stringify h g"
  using call_old_obj [OF assms] assms(2) by (rule stringify_old [rotated])

lemma chain_text:
  assumes "valid h f" "chain cs f h = (Inr g, h')"
  shows "stringify h' g = stringify h f @ concat (map op_text cs)"
  using assms
proof (induction cs arbitrary: f h)
  case Nil
  then show ?case by simp
next
  case (Cons c cs)
  from Cons.prems(2) obtain g1 h1 where c: "call c f h = (Inr g1, h1)"
    and r: "chain cs g1 h1 = (Inr g, h')"
    by (auto split: prod.splits sum.splits)
  have "stringify h' g = stringify h1 g1 @ concat (map op_text cs)"
    using call_valid [OF Cons.prems(1) c] r by (rule Cons.IH)
  then show ?case by (simp add: call_text [OF Cons.prems(1) c])
qed

lemma combine_eq:
  "combine l c r h =
    (length (objs h),
     \<lparr>objs = objs h @
        [\<lparr>str = Some (stringify (h\<lparr>objs := objs h @ [\<lparr>str = None, arr = None\<rparr>]\<rparr>) l @ '' '' @ c @ '' '' @
                      stringify (h\<lparr>objs := objs h @ [\<lparr>str = None, arr = None\<rparr>]\<rparr>) r),
          arr = None\<rparr>],
      arrs = arrs h\<rparr>)"
  by (simp add: combine_def CombineSelector_def alloc_obj_def set_str_def)

lemma call_on_fresh:
  assumes "valid h f" "arr (objs h ! f) = None"
  shows "fst (call c f h) = Inr (length (objs h))"
  using assms(1)
proof (cases rule: call_cases [where c = c])
  case dup
  then show ?thesis using assms(2) by (simp add: usedKinds_def)
next
  case (order e)
  then show ?thesis using assms(2) first_call_in_order [of "op_kind c"] by (simp add: usedKinds_def)
next
  case ok
  then show ?thesis by simp
qed

lemma combine_stringify_old:
  "g < length (objs h) \<Longrightarrow> stringify (snd (combine l k r h)) g = stringify h g"
  by (simp add: combine_eq stringify_def nth_append)

section \<open>The claims\<close>

text \<open>
  C2.  If the \<open>usedKinds\<close> of a fragment satisfy Invariant A (element, id and pseudo-element
  at most once) and Invariant B (first occurrences in non-decreasing canonical order) and a
  factory call on it returns normally, then the \<open>usedKinds\<close> of the returned fragment
  satisfy both invariants.
\<close>

theorem append_preserves_invariants:
  assumes "valid h f" and "invA (usedKinds h f)" and "invB (usedKinds h f)"
    and "call c f h = (Inr g, h')"
  shows "invA (usedKinds h' g) \<and> invB (usedKinds h' g)"
  using assms(1)
proof (cases rule: call_cases [where c = c])
  case dup
  with assms(4) show ?thesis by simp
next
  case (order e)
  with assms(4) show ?thesis by simp
next
  case ok
  with assms(4) have g: "g = length (objs h)"
    and h': "h' = heap_built h f (op_kind c) (op_text c)"
    by simp_all
  have uk: "usedKinds h' g = usedKinds h f @ [op_kind c]"
    by (simp add: g h' built_usedKinds_new assms(1))
  have "invA (usedKinds h f @ [op_kind c])"
    using assms(2) ok(1) by (intro invA_snoc) auto
  moreover have "invB (usedKinds h f @ [op_kind c])"
    using ok(2) by (simp add: inOrder_iff)
  ultimately show ?thesis by (simp add: uk)
qed

theorem append_preserves_invariants_witness:
  "valid heap_div 1 \<and> invA (usedKinds heap_div 1) \<and> invB (usedKinds heap_div 1)
   \<and> call (OpClass ''a'') 1 heap_div = (Inr 2, heap_div_a)
   \<and> invA (usedKinds heap_div_a 2) \<and> invB (usedKinds heap_div_a 2)"
proof -
  have v: "valid heap_div 1" by code_simp
  have a: "invA (usedKinds heap_div 1)" by code_simp
  have b: "invB (usedKinds heap_div 1)" by code_simp
  have c: "call (OpClass ''a'') 1 heap_div = (Inr 2, heap_div_a)" by code_simp
  show ?thesis using v a b c append_preserves_invariants [OF v a b c] by simp
qed

text \<open>
  C3.  A call of \<open>element\<close>, \<open>id\<close> or \<open>pseudoElement\<close> throws the error "Element, id and
  pseudo-element should not occur more then one time inside the selector" exactly when the
  kind is already in the fragment's \<open>usedKinds\<close>.  At that throw the object under
  construction has no \<open>str\<close> yet (no text has been concatenated) and no array has changed.
  The message contains the name of the offending kind.
\<close>

theorem duplicate_singleton_error:
  assumes "valid h f" and "c = OpElement v \<or> c = OpId v \<or> c = OpPseudoElement v"
  shows "(fst (call c f h) = Inl (Error dup_msg) \<longleftrightarrow> op_kind c \<in> set (usedKinds h f))
    \<and> (op_kind c \<in> set (usedKinds h f) \<longrightarrow>
          snd (call c f h) =
            \<lparr>objs = objs h @ [\<lparr>str = None, arr = arr (objs h ! f)\<rparr>], arrs = arrs h\<rparr>)
    \<and> dup_msg =
        ''Element, id and pseudo-element should not occur more then one time inside the selector''
    \<and> (\<exists>pre post. dup_msg = pre @ kind_name (op_kind c) @ post)"
proof -
  have s: "singleton (op_kind c)" using assms(2) by auto
  have iff: "fst (call c f h) = Inl (Error dup_msg) \<longleftrightarrow> op_kind c \<in> set (usedKinds h f)"
    using assms(1)
  proof (cases rule: call_cases [where c = c])
    case dup
    then show ?thesis by simp
  next
    case (order e)
    then show ?thesis using s forEach_order_Some [OF order(2)] msgs_differ by auto
  next
    case ok
    then show ?thesis using s by auto
  qed
  have heap: "snd (call c f h) =
      \<lparr>objs = objs h @ [\<lparr>str = None, arr = arr (objs h ! f)\<rparr>], arrs = arrs h\<rparr>"
    if "op_kind c \<in> set (usedKinds h f)"
    using call_effect [OF assms(1), of c] s that thrown_when_present [OF that] by simp
  show ?thesis
    using iff heap dup_msg_names [OF s] by (simp add: dup_msg_def)
qed

theorem duplicate_singleton_error_witness:
  "valid heap_div_a 2
   \<and> fst (call (OpElement ''span'') 2 heap_div_a) = Inl (Error dup_msg)
   \<and> op_kind (OpElement ''span'') \<in> set (usedKinds heap_div_a 2)
   \<and> snd (call (OpElement ''span'') 2 heap_div_a) =
       \<lparr>objs = objs heap_div_a @ [\<lparr>str = None, arr = arr (objs heap_div_a ! 2)\<rparr>],
        arrs = arrs heap_div_a\<rparr>"
proof -
  have v: "valid heap_div_a 2" by code_simp
  have k: "op_kind (OpElement ''span'') \<in> set (usedKinds heap_div_a 2)" by code_simp
  show ?thesis
    using v k duplicate_singleton_error [OF v, of "OpElement ''span''" "''span''"] by simp
qed

text \<open>
  C10.  When \<open>element\<close>, \<open>id\<close> or \<open>pseudoElement\<close> is called on a fragment whose \<open>usedKinds\<close>
  already hold that kind, the call throws the duplicate error with every array as it was:
  the \<open>usedKinds\<close> and the text of the fragment, and of every other fragment of the heap
  (in particular of those sharing the array), are unchanged.
\<close>

theorem duplicate_error_leaves_heap:
  assumes "valid h f" and "c = OpElement v \<or> c = OpId v \<or> c = OpPseudoElement v"
    and "op_kind c \<in> set (usedKinds h f)" and "call c f h = (r, h')"
  shows "r = Inl (Error dup_msg) \<and> arrs h' = arrs h
    \<and> usedKinds h' f = usedKinds h f \<and> stringify h' f = stringify h f
    \<and> (\<forall>g. valid h g \<longrightarrow>
          objs h' ! g = objs h ! g \<and> usedKinds h' g = usedKinds h g
          \<and> stringify h' g = stringify h g)"
proof -
  have s: "singleton (op_kind c)" using assms(2) by auto
  have r: "r = Inl (Error dup_msg)" and h': "h' = heap_thrown h f"
    using call_effect [OF assms(1), of c] s assms(3,4) by simp_all
  have arrs: "arrs h' = arrs h"
    by (simp add: h' thrown_when_present [OF assms(3)])
  have frame: "objs h' ! g = objs h ! g \<and> usedKinds h' g = usedKinds h g
      \<and> stringify h' g = stringify h g" if "valid h g" for g
  proof -
    have g: "g < length (objs h)" using that by (simp add: valid_def)
    have o: "objs h' ! g = objs h ! g" by (simp add: h' thrown_old_obj g)
    show ?thesis using o by (simp add: h' thrown_usedKinds that stringify_old g)
  qed
  show ?thesis using r arrs frame assms(1) by blast
qed

theorem duplicate_error_leaves_heap_witness:
  "valid heap_div_a 2 \<and> op_kind (OpElement ''span'') \<in> set (usedKinds heap_div_a 2)
   \<and> fst (call (OpElement ''span'') 2 heap_div_a) = Inl (Error dup_msg)
   \<and> arrs (snd (call (OpElement ''span'') 2 heap_div_a)) = arrs heap_div_a
   \<and> usedKinds (snd (call (OpElement ''span'') 2 heap_div_a)) 2 = [Element, Class]
   \<and> stringify (snd (call (OpElement ''span'') 2 heap_div_a)) 2 = ''div.a''
   \<and> valid heap_div_a 1
   \<and> usedKinds (snd (call (OpElement ''span'') 2 heap_div_a)) 1 = usedKinds heap_div_a 1"
proof -
  have v: "valid heap_div_a 2" by code_simp
  have v1: "valid heap_div_a 1" by code_simp
  have k: "op_kind (OpElement ''span'') \<in> set (usedKinds heap_div_a 2)" by code_simp
  have u: "usedKinds heap_div_a 2 = [Element, Class]" by code_simp
  have t: "stringify heap_div_a 2 = ''div.a''" by code_simp
  have c: "call (OpElement ''span'') 2 heap_div_a =
     (fst (call (OpElement ''span'') 2 heap_div_a), snd (call (OpElement ''span'') 2 heap_div_a))"
    by simp
  show ?thesis
    using v v1 k u t duplicate_error_leaves_heap [OF v _ k c, of "''span''"] by simp
qed

text \<open>
  C1 (as amended).  A factory call that returns normally leaves the fields of the fragment
  it is called on, and so its text, as they were, and returns a new object whose
  \<open>usedKinds\<close> are the caller's followed by the new kind.  The new object is not
  independent of the caller: when the caller has an array the new object points at the
  same array, so the caller's \<open>usedKinds\<close> grow by the new kind as well.  Only a caller
  without an array (such as \<open>cssSelectorBuilder\<close> itself) keeps its \<open>usedKinds\<close>; the new
  object then gets a fresh array.
\<close>

theorem append_shares_array:
  assumes "valid h f" and "call c f h = (Inr g, h')"
  shows "g = length (objs h) \<and> objs h' ! f = objs h ! f \<and> stringify h' f = stringify h f
    \<and> usedKinds h' g = usedKinds h f @ [op_kind c]
    \<and> (case arr (objs h ! f) of
         None \<Rightarrow> usedKinds h' f = usedKinds h f \<and> arr (objs h' ! g) = Some (length (arrs h))
       | Some r \<Rightarrow> arr (objs h' ! g) = Some r
           \<and> usedKinds h' f = usedKinds h f @ [op_kind c])"
  using assms(1)
proof (cases rule: call_cases [where c = c])
  case ok
  with assms(2) have g: "g = length (objs h)"
    and h': "h' = heap_built h f (op_kind c) (op_text c)"
    by simp_all
  have f: "f < length (objs h)" using assms(1) by (simp add: valid_def)
  have o: "objs h' ! f = objs h ! f" by (simp add: h' built_old_obj f)
  have t: "stringify h' f = stringify h f" using o by (rule stringify_old [OF f])
  have n: "usedKinds h' g = usedKinds h f @ [op_kind c]"
    by (simp add: g h' built_usedKinds_new assms(1))
  have a: "arr (objs h' ! g) = Some (target_arr h f)"
    by (simp add: g h' built_new_obj)
  have s: "usedKinds h' f =
      (case arr (objs h ! f) of None \<Rightarrow> [] | Some r \<Rightarrow> usedKinds h f @ [op_kind c])"
    by (simp add: h' built_usedKinds_self assms(1))
  show ?thesis
    using g o t n a s
    by (cases "arr (objs h ! f)") (simp_all add: target_arr_def usedKinds_def [of h f])
qed (use assms(2) in simp_all)

theorem append_shares_array_witness:
  "valid heap_div 1 \<and> call (OpClass ''a'') 1 heap_div = (Inr 2, heap_div_a)
   \<and> stringify heap_div_a 1 = stringify heap_div 1
   \<and> usedKinds heap_div_a 2 = usedKinds heap_div 1 @ [Class]
   \<and> arr (objs heap_div_a ! 2) = Some 0
   \<and> usedKinds heap_div_a 1 = usedKinds heap_div 1 @ [Class]
   \<and> valid init_heap cssSelectorBuilder
   \<and> call (OpElement ''div'') cssSelectorBuilder init_heap = (Inr 1, heap_div)
   \<and> usedKinds heap_div 1 = usedKinds init_heap cssSelectorBuilder @ [Element]
   \<and> usedKinds heap_div cssSelectorBuilder = usedKinds init_heap cssSelectorBuilder"
proof -
  have v: "valid heap_div 1" by code_simp
  have c: "call (OpClass ''a'') 1 heap_div = (Inr 2, heap_div_a)" by code_simp
  have a: "arr (objs heap_div ! 1) = Some 0" by code_simp
  have v0: "valid init_heap cssSelectorBuilder" by code_simp
  have c0: "call (OpElement ''div'') cssSelectorBuilder init_heap = (Inr 1, heap_div)"
    by code_simp
  have a0: "arr (objs init_heap ! cssSelectorBuilder) = None" by code_simp
  have n0: "length (objs init_heap) = 1" by code_simp
  have r: "stringify heap_div_a 1 = stringify heap_div 1
      \<and> usedKinds heap_div_a 2 = usedKinds heap_div 1 @ [Class]
      \<and> arr (objs heap_div_a ! 2) = Some 0
      \<and> usedKinds heap_div_a 1 = usedKinds heap_div 1 @ [Class]"
    using a append_shares_array [OF v c] by simp
  have r0: "usedKinds heap_div 1 = usedKinds init_heap cssSelectorBuilder @ [Element]
      \<and> usedKinds heap_div cssSelectorBuilder = usedKinds init_heap cssSelectorBuilder"
    using a0 append_shares_array [OF v0 c0] by (simp add: n0)
  show ?thesis using v c v0 c0 r r0 by simp
qed

text \<open>
  C1 as stated fails: after \<open>f = cssSelectorBuilder.element('div')\<close>, the call
  \<open>f.class('a')\<close> returns object 2, which points at the array of \<open>f\<close>, and the
  \<open>usedKinds\<close> of \<open>f\<close> have changed from \<open>[element]\<close> to \<open>[element, class]\<close>.
\<close>

theorem append_mutates_predecessor_counterexample:
  "valid heap_div 1 \<and> call (OpClass ''a'') 1 heap_div = (Inr 2, heap_div_a)
   \<and> usedKinds heap_div 1 = [Element] \<and> usedKinds heap_div_a 1 = [Element, Class]
   \<and> arr (objs heap_div_a ! 2) = arr (objs heap_div_a ! 1)"
  by code_simp

text \<open>
  C4.  The claim: an append of kind \<open>k\<close> to a fragment satisfying Invariants A and B throws
  the order error exactly when some other kind in its \<open>usedKinds\<close> has a canonical index
  (element 0, id 1, class 2, attribute 3, pseudo-class 4, pseudo-element 5) strictly
  greater than that of \<open>k\<close>.  The code does not do this when \<open>k\<close> is already in the array.
  On \<open>f = cssSelectorBuilder.class('a').attr('x')\<close> the \<open>usedKinds\<close> are
  \<open>[class, attribute]\<close>, both invariants hold and attribute, of index 3, is present; yet
  \<open>f.class('b')\<close>, of index 2, throws nothing and returns object 3 with the text
  \<open>.a[x].b\<close>, which is not in the order that the code's own error message requires.
\<close>

theorem repeated_kind_escapes_order_check:
  "valid heap_a_x 2
   \<and> usedKinds heap_a_x 2 = [Class, Attribute]
   \<and> invA (usedKinds heap_a_x 2) \<and> invB (usedKinds heap_a_x 2)
   \<and> Attribute \<in> set (usedKinds heap_a_x 2) \<and> Attribute \<noteq> op_kind (OpClass ''b'')
   \<and> order_of (op_kind (OpClass ''b'')) < order_of Attribute
   \<and> fst (call (OpClass ''b'') 2 heap_a_x) = Inr 3
   \<and> stringify (snd (call (OpClass ''b'') 2 heap_a_x)) 3 = ''.a[x].b''
   \<and> usedKinds (snd (call (OpClass ''b'') 2 heap_a_x)) 3 = [Class, Attribute, Class]
   \<and> order_msg = ''Selector parts should be arranged in the following order: element, id, class, attribute, pseudo-class, pseudo-element''"
  by code_simp

text \<open>
  C5 (as amended).  A factory call that throws returns no fragment and leaves the fields
  and the text of the fragment it was called on as they were.  After the duplicate error
  its \<open>usedKinds\<close> are unchanged too; the order error is thrown by \<open>inOrderCheck\<close> after the
  constructor has pushed the kind onto the shared array, so the \<open>usedKinds\<close> of the
  fragment then end with the rejected kind.
\<close>

theorem failed_append_effect:
  assumes "valid h f" and "call c f h = (Inl e, h')"
  shows "objs h' ! f = objs h ! f \<and> stringify h' f = stringify h f
    \<and> (e = Error dup_msg \<and> usedKinds h' f = usedKinds h f
       \<or> e = Error order_msg \<and> usedKinds h' f = usedKinds h f @ [op_kind c])"
  using assms(1)
proof (cases rule: call_cases [where c = c])
  case dup
  with assms(2) have e: "e = Error dup_msg" and h': "h' = heap_thrown h f" by simp_all
  have f: "f < length (objs h)" using assms(1) by (simp add: valid_def)
  have o: "objs h' ! f = objs h ! f" by (simp add: h' thrown_old_obj f)
  show ?thesis
    using e o stringify_old [OF f o] by (simp add: h' thrown_usedKinds assms(1))
next
  case (order e')
  with assms(2) have e: "e = e'" and h': "h' = heap_built h f (op_kind c) (op_text c)"
    by simp_all
  have m: "e = Error order_msg" using forEach_order_Some [OF order(2)] e by simp
  have f: "f < length (objs h)" using assms(1) by (simp add: valid_def)
  have o: "objs h' ! f = objs h ! f" by (simp add: h' built_old_obj f)
  have "arr (objs h ! f) \<noteq> None"
  proof
    assume "arr (objs h ! f) = None"
    then have "usedKinds h f = []" by (simp add: usedKinds_def)
    with order(2) show False using first_call_in_order [of "op_kind c"] by simp
  qed
  then have "usedKinds h' f = usedKinds h f @ [op_kind c]"
    by (auto simp: h' built_usedKinds_self assms(1))
  then show ?thesis using m o stringify_old [OF f o] by simp
next
  case ok
  with assms(2) show ?thesis by simp
qed

theorem failed_append_effect_witness:
  "valid heap_a 1 \<and> call (OpElement ''div'') 1 heap_a =
      (Inl (Error order_msg), snd (call (OpElement ''div'') 1 heap_a))
   \<and> stringify (snd (call (OpElement ''div'') 1 heap_a)) 1 = stringify heap_a 1
   \<and> usedKinds (snd (call (OpElement ''div'') 1 heap_a)) 1 = usedKinds heap_a 1 @ [Element]
   \<and> valid heap_div 1 \<and> call (OpElement ''span'') 1 heap_div =
      (Inl (Error dup_msg), snd (call (OpElement ''span'') 1 heap_div))
   \<and> stringify (snd (call (OpElement ''span'') 1 heap_div)) 1 = stringify heap_div 1
   \<and> usedKinds (snd (call (OpElement ''span'') 1 heap_div)) 1 = usedKinds heap_div 1"
proof -
  have v: "valid heap_a 1" by code_simp
  have c: "call (OpElement ''div'') 1 heap_a =
      (Inl (Error order_msg), snd (call (OpElement ''div'') 1 heap_a))" by code_simp
  have v': "valid heap_div 1" by code_simp
  have c': "call (OpElement ''span'') 1 heap_div =
      (Inl (Error dup_msg), snd (call (OpElement ''span'') 1 heap_div))" by code_simp
  show ?thesis
    using v c v' c' failed_append_effect [OF v c] failed_append_effect [OF v' c'] msgs_differ
    by simp
qed

text \<open>
  C5 as stated fails: on \<open>f = cssSelectorBuilder.class('a')\<close> the call \<open>f.element('div')\<close>
  throws the order error and the \<open>usedKinds\<close> of \<open>f\<close> are \<open>[class, element]\<close> afterwards.
\<close>

theorem failed_append_keeps_kind_counterexample:
  "valid heap_a 1 \<and> fst (call (OpElement ''div'') 1 heap_a) = Inl (Error order_msg)
   \<and> usedKinds heap_a 1 = [Class]
   \<and> usedKinds (snd (call (OpElement ''div'') 1 heap_a)) 1 = [Class, Element]"
  by code_simp

text \<open>
  C6.  For any two selector objects and any combinator string, \<open>combine\<close> returns a new
  object (the model of \<open>combine\<close> has no error branch, as the source has no \<open>throw\<close> on
  this path and no check of order or duplicates) whose text is
  \<open>stringify(left) + ' ' + combinator + ' ' + stringify(right)\<close> and which has no \<open>arr\<close>, so
  that its \<open>usedKinds\<close> read as empty whatever the operands hold: every factory call on the
  result returns normally.  No array and no operand text changes.
\<close>

theorem combine_result:
  assumes "l < length (objs h)" and "r < length (objs h)"
  shows "\<exists>g h'. combine l c r h = (g, h') \<and> g = length (objs h)
     \<and> stringify h' g = stringify h l @ '' '' @ c @ '' '' @ stringify h r
     \<and> arr (objs h' ! g) = None \<and> usedKinds h' g = [] \<and> arrs h' = arrs h
     \<and> stringify h' l = stringify h l \<and> stringify h' r = stringify h r
     \<and> (\<forall>c'. fst (call c' g h') = Inr (Suc g))"
proof -
  let ?h = "snd (combine l c r h)"
  let ?g = "length (objs h)"
  have g: "fst (combine l c r h) = ?g" by (simp add: combine_eq)
  have a: "arr (objs ?h ! ?g) = None" by (simp add: combine_eq)
  have t: "stringify ?h ?g = stringify h l @ '' '' @ c @ '' '' @ stringify h r"
    using assms by (simp add: combine_eq stringify_def nth_append)
  have o: "stringify ?h l = stringify h l" "stringify ?h r = stringify h r"
    using assms by (simp_all add: combine_eq stringify_def nth_append)
  have v: "valid ?h ?g" by (simp add: combine_eq valid_def)
  have n: "length (objs ?h) = Suc ?g" by (simp add: combine_eq)
  have f: "fst (call c' ?g ?h) = Inr (Suc ?g)" for c'
    using call_on_fresh [OF v a, of c'] n by simp
  have "combine l c r h = (?g, ?h)" using g by (simp add: prod_eq_iff)
  moreover have "usedKinds ?h ?g = []" using a by (simp add: usedKinds_def)
  moreover have "arrs ?h = arrs h" by (simp add: combine_eq)
  ultimately show ?thesis using a t o f by blast
qed

theorem combine_result_witness:
  "2 < length (objs heap_table_tr) \<and> 4 < length (objs heap_table_tr)
   \<and> usedKinds heap_table_tr 2 = [Element, Id]
   \<and> usedKinds heap_table_tr 4 = [Element, PseudoClass]
   \<and> fst (combine 2 ''~'' 4 heap_table_tr) = 5
   \<and> stringify (snd (combine 2 ''~'' 4 heap_table_tr)) 5 = ''table#data ~ tr:nth-of-type(even)''
   \<and> usedKinds (snd (combine 2 ''~'' 4 heap_table_tr)) 5 = []"
proof -
  have l: "2 < length (objs heap_table_tr)" by code_simp
  have r: "4 < length (objs heap_table_tr)" by code_simp
  have n: "length (objs heap_table_tr) = 5" by code_simp
  have tl: "stringify heap_table_tr 2 = ''table#data''" by code_simp
  have tr: "stringify heap_table_tr 4 = ''tr:nth-of-type(even)''" by code_simp
  have ul: "usedKinds heap_table_tr 2 = [Element, Id]" by code_simp
  have ur: "usedKinds heap_table_tr 4 = [Element, PseudoClass]" by code_simp
  show ?thesis
    using l r ul ur combine_result [OF l r, of "''~''"] by (auto simp: n tl tr)
qed

text \<open>
  C7.  For every fragment \<open>f\<close>, the calls \<open>f.class(a)\<close> and then \<open>f.class(b)\<close> on the same
  \<open>f\<close> leave the text of \<open>f\<close> unchanged.  When the first call returns, the second returns
  as well, with a different object, and the two derived objects stringify to the text
  of \<open>f\<close> followed by \<open>.a\<close> and by \<open>.b\<close>, the first also after the second call.
\<close>

theorem class_branches:
  assumes "valid h f"
  shows "stringify (snd (class_sel f va h)) f = stringify h f
     \<and> stringify (snd (class_sel f vb (snd (class_sel f va h)))) f = stringify h f
     \<and> (class_sel f va h = (Inr g1, h1) \<longrightarrow>
          (\<exists>g2 h2. class_sel f vb h1 = (Inr g2, h2) \<and> g1 \<noteq> g2
             \<and> stringify h1 g1 = stringify h f @ ''.'' @ va
             \<and> stringify h2 g1 = stringify h f @ ''.'' @ va
             \<and> stringify h2 g2 = stringify h f @ ''.'' @ vb))"
proof -
  let ?h1 = "snd (call (OpClass va) f h)"
  have f: "f < length (objs h)" using assms by (simp add: valid_def)
  have v1: "valid ?h1 f" using assms assms by (rule call_valid_old)
  have t1f: "stringify ?h1 f = stringify h f"
    using assms f by (rule call_stringify_old)
  have f1: "f < length (objs ?h1)" using v1 by (simp add: valid_def)
  have t2f: "stringify (snd (call (OpClass vb) f ?h1)) f = stringify ?h1 f"
    using v1 f1 by (rule call_stringify_old)
  have branch: "\<exists>g2 h2. class_sel f vb h1 = (Inr g2, h2) \<and> g1 \<noteq> g2
      \<and> stringify h1 g1 = stringify h f @ ''.'' @ va
      \<and> stringify h2 g1 = stringify h f @ ''.'' @ va
      \<and> stringify h2 g2 = stringify h f @ ''.'' @ vb"
    if ret: "class_sel f va h = (Inr g1, h1)"
  proof -
    have c1: "call (OpClass va) f h = (Inr g1, h1)" using ret by simp
    have h1: "h1 = ?h1" using c1 by simp
    have g1: "g1 = length (objs h)" and n1: "length (objs h1) = Suc (length (objs h))"
      and ord: "forEach_order 0 (Array_from_Set (usedKinds h f @ [Class])) = None"
      and hb: "h1 = heap_built h f Class (''.'' @ va)"
      using assms c1
      by (cases rule: call_cases [where c = "OpClass va"]; simp add: heap_built_def)+
    have t1g: "stringify h1 g1 = stringify h f @ ''.'' @ va"
      using call_text [OF assms c1] by simp
    have ord2: "forEach_order 0 (Array_from_Set (usedKinds h1 f @ [Class])) = None"
    proof (cases "arr (objs h ! f)")
      case None
      then have "usedKinds h1 f = []" by (simp add: hb built_usedKinds_self assms)
      then show ?thesis using first_call_in_order [of Class] by simp
    next
      case (Some r)
      then have u: "usedKinds h1 f = usedKinds h f @ [Class]"
        by (simp add: hb built_usedKinds_self assms)
      have "Array_from_Set ((usedKinds h f @ [Class]) @ [Class]) =
          Array_from_Set (usedKinds h f @ [Class])"
        by (subst Array_from_Set_snoc) simp
      then show ?thesis using ord by (simp only: u)
    qed
    have v1': "valid h1 f" using v1 by (simp add: h1)
    obtain h2 where c2: "call (OpClass vb) f h1 = (Inr (length (objs h1)), h2)"
      using v1' by (cases rule: call_cases [where c = "OpClass vb"]) (use ord2 in auto)
    have h2: "h2 = snd (call (OpClass vb) f h1)" using c2 by simp
    have t2g1: "stringify h2 g1 = stringify h1 g1"
      unfolding h2 using v1' by (rule call_stringify_old) (use g1 n1 in simp)
    have t2g2: "stringify h2 (length (objs h1)) = stringify h1 f @ ''.'' @ vb"
      using call_text [OF v1' c2] by simp
    have "class_sel f vb h1 = (Inr (length (objs h1)), h2)" using c2 by simp
    moreover have "g1 \<noteq> length (objs h1)" using g1 n1 by simp
    ultimately show ?thesis using t1f t1g t2g1 t2g2 by (auto simp: h1)
  qed
  show ?thesis using t1f t2f branch by simp
qed

theorem class_branches_witness:
  "valid heap_div 1 \<and> class_sel 1 ''a'' heap_div = (Inr 2, heap_div_a)
   \<and> fst (class_sel 1 ''b'' heap_div_a) = Inr 3
   \<and> stringify (snd (class_sel 1 ''b'' heap_div_a)) 1 = ''div''
   \<and> stringify (snd (class_sel 1 ''b'' heap_div_a)) 2 = ''div.a''
   \<and> stringify (snd (class_sel 1 ''b'' heap_div_a)) 3 = ''div.b''"
proof -
  have v: "valid heap_div 1" by code_simp
  have c: "class_sel 1 ''a'' heap_div = (Inr 2, heap_div_a)" by code_simp
  have t: "stringify heap_div 1 = ''div''" by code_simp
  have g: "fst (class_sel 1 ''b'' heap_div_a) = Inr 3" by code_simp
  show ?thesis
    using v c g t class_branches [OF v, of "''a''" "''b''" 2 heap_div_a] by auto
qed

text \<open>
  C8.  Whatever the string \<open>v\<close>, a returning call gives an object whose text is the
  caller's text followed by \<open>v\<close> for \<open>element\<close>, \<open>#v\<close> for \<open>id\<close>, \<open>.v\<close> for \<open>class\<close>,
  \<open>[v]\<close> for \<open>attr\<close>, \<open>:v\<close> for \<open>pseudoClass\<close> and \<open>::v\<close> for \<open>pseudoElement\<close>; and
  \<open>cssSelectorBuilder.id('main').class('container').class('editable')\<close> stringifies to
  \<open>#main.container.editable\<close>.
\<close>

theorem facade_formatting:
  assumes "valid h f"
  shows "(element f v h = (Inr g, h') \<longrightarrow> stringify h' g = stringify h f @ v)
   \<and> (id_sel f v h = (Inr g, h') \<longrightarrow> stringify h' g = stringify h f @ ''#'' @ v)
   \<and> (class_sel f v h = (Inr g, h') \<longrightarrow> stringify h' g = stringify h f @ ''.'' @ v)
   \<and> (attr f v h = (Inr g, h') \<longrightarrow> stringify h' g = stringify h f @ ''['' @ v @ '']'')
   \<and> (pseudoClass f v h = (Inr g, h') \<longrightarrow> stringify h' g = stringify h f @ '':'' @ v)
   \<and> (pseudoElement f v h = (Inr g, h') \<longrightarrow> stringify h' g = stringify h f @ ''::'' @ v)
   \<and> fst (chain [OpId ''main'', OpClass ''container'', OpClass ''editable'']
             cssSelectorBuilder init_heap) = Inr 3
   \<and> stringify (snd (chain [OpId ''main'', OpClass ''container'', OpClass ''editable'']
                        cssSelectorBuilder init_heap)) 3 = ''#main.container.editable''"
proof -
  have e: "stringify h' g = stringify h f @ v" if "element f v h = (Inr g, h')"
    using call_text [OF assms, of "OpElement v" g h'] that by simp
  have i: "stringify h' g = stringify h f @ ''#'' @ v" if "id_sel f v h = (Inr g, h')"
    using call_text [OF assms, of "OpId v" g h'] that by simp
  have c: "stringify h' g = stringify h f @ ''.'' @ v" if "class_sel f v h = (Inr g, h')"
    using call_text [OF assms, of "OpClass v" g h'] that by simp
  have a: "stringify h' g = stringify h f @ ''['' @ v @ '']''" if "attr f v h = (Inr g, h')"
    using call_text [OF assms, of "OpAttr v" g h'] that by simp
  have pc: "stringify h' g = stringify h f @ '':'' @ v" if "pseudoClass f v h = (Inr g, h')"
    using call_text [OF assms, of "OpPseudoClass v" g h'] that by simp
  have pe: "stringify h' g = stringify h f @ ''::'' @ v" if "pseudoElement f v h = (Inr g, h')"
    using call_text [OF assms, of "OpPseudoElement v" g h'] that by simp
  have ex1: "fst (chain [OpId ''main'', OpClass ''container'', OpClass ''editable'']
             cssSelectorBuilder init_heap) = Inr 3"
    by code_simp
  have ex2: "stringify (snd (chain [OpId ''main'', OpClass ''container'', OpClass ''editable'']
                        cssSelectorBuilder init_heap)) 3 = ''#main.container.editable''"
    by code_simp
  show ?thesis using e i c a pc pe ex1 ex2 by blast
qed

theorem facade_formatting_witness:
  "valid init_heap cssSelectorBuilder
   \<and> fst (element cssSelectorBuilder ''a'' init_heap) = Inr 1
   \<and> stringify (snd (element cssSelectorBuilder ''a'' init_heap)) 1 = ''a''
   \<and> fst (id_sel cssSelectorBuilder ''a'' init_heap) = Inr 1
   \<and> stringify (snd (id_sel cssSelectorBuilder ''a'' init_heap)) 1 = ''#a''
   \<and> fst (class_sel cssSelectorBuilder ''a'' init_heap) = Inr 1
   \<and> stringify (snd (class_sel cssSelectorBuilder ''a'' init_heap)) 1 = ''.a''
   \<and> fst (attr cssSelectorBuilder ''a'' init_heap) = Inr 1
   \<and> stringify (snd (attr cssSelectorBuilder ''a'' init_heap)) 1 = ''[a]''
   \<and> fst (pseudoClass cssSelectorBuilder ''a'' init_heap) = Inr 1
   \<and> stringify (snd (pseudoClass cssSelectorBuilder ''a'' init_heap)) 1 = '':a''
   \<and> fst (pseudoElement cssSelectorBuilder ''a'' init_heap) = Inr 1
   \<and> stringify (snd (pseudoElement cssSelectorBuilder ''a'' init_heap)) 1 = ''::a''"
proof -
  let ?f = cssSelectorBuilder
  have v: "valid init_heap ?f" by code_simp
  have t: "stringify init_heap ?f = []" by code_simp
  have 1: "fst (element ?f ''a'' init_heap) = Inr 1" by code_simp
  have 2: "fst (id_sel ?f ''a'' init_heap) = Inr 1" by code_simp
  have 3: "fst (class_sel ?f ''a'' init_heap) = Inr 1" by code_simp
  have 4: "fst (attr ?f ''a'' init_heap) = Inr 1" by code_simp
  have 5: "fst (pseudoClass ?f ''a'' init_heap) = Inr 1" by code_simp
  have 6: "fst (pseudoElement ?f ''a'' init_heap) = Inr 1" by code_simp
  show ?thesis
    using v t 1 2 3 4 5 6
      facade_formatting [OF v, of "''a''" 1 "snd (element ?f ''a'' init_heap)"]
      facade_formatting [OF v, of "''a''" 1 "snd (id_sel ?f ''a'' init_heap)"]
      facade_formatting [OF v, of "''a''" 1 "snd (class_sel ?f ''a'' init_heap)"]
      facade_formatting [OF v, of "''a''" 1 "snd (attr ?f ''a'' init_heap)"]
      facade_formatting [OF v, of "''a''" 1 "snd (pseudoClass ?f ''a'' init_heap)"]
      facade_formatting [OF v, of "''a''" 1 "snd (pseudoElement ?f ''a'' init_heap)"]
    by (simp add: prod_eq_iff)
qed

text \<open>
  C9.  \<open>stringify\<close> is a total function of the heap and the object, so it cannot throw.
  It gives the empty string on the untouched \<open>cssSelectorBuilder\<close>; on the result of a chain
  of factory calls it gives the caller's text followed by the texts the calls add, in
  order; and no factory call and no \<open>combine\<close> changes what it gives on an object that
  already exists, so repeated calls give the same string.
\<close>

theorem stringify_reads_text:
  "stringify init_heap cssSelectorBuilder = []
   \<and> (valid h f \<longrightarrow> chain cs f h = (Inr g, h') \<longrightarrow>
        stringify h' g = stringify h f @ concat (map op_text cs))
   \<and> (valid h f \<longrightarrow> g' < length (objs h) \<longrightarrow>
        stringify (snd (call c f h)) g' = stringify h g')
   \<and> (g' < length (objs h) \<longrightarrow> stringify (snd (combine l k r h)) g' = stringify h g')"
proof -
  have "stringify init_heap cssSelectorBuilder = []" by code_simp
  then show ?thesis
    using chain_text [of h f cs g h'] call_stringify_old [of h f g' c]
      combine_stringify_old [of g' h l k r]
    by blast
qed

theorem stringify_reads_text_witness:
  "valid heap_div 1
   \<and> chain [OpClass ''a''] 1 heap_div = (Inr 2, heap_div_a)
   \<and> stringify heap_div_a 2 = ''div.a''
   \<and> 1 < length (objs heap_div)
   \<and> stringify (snd (call (OpClass ''a'') 1 heap_div)) 1 = ''div''
   \<and> stringify (snd (combine 1 ''+'' 1 heap_div)) 1 = ''div''"
proof -
  have v: "valid heap_div 1" by code_simp
  have c: "chain [OpClass ''a''] 1 heap_div = (Inr 2, heap_div_a)" by code_simp
  have n: "1 < length (objs heap_div)" by code_simp
  have t: "stringify heap_div 1 = ''div''" by code_simp
  show ?thesis
    using v c n t 
      stringify_reads_text [of heap_div 1 "[OpClass ''a'']" 2 heap_div_a 1 "OpClass ''a''" 1 "''+''" 1]
    by simp
qed

end
